theory Spec2Isabelle
  imports Main "HOL-Library.Multiset"
begin

section \<open>The Yahtzee scoring rules\<close>

subsection \<open>Errors\<close>

text \<open>
  \<open>TypeError\<close> is what \<open>Array.prototype.reduce\<close> throws on an empty array when no
  initial value is given (the only throwing construct on the rules' paths).
  \<open>InvalidHandError\<close> and \<open>UnknownCategoryError\<close> are the two errors named by the
  specification; no statement of the source constructs either of them.
\<close>

datatype error = TypeError | InvalidHandError | UnknownCategoryError

subsection \<open>A hand, and the rule kinds\<close>

text \<open>A hand is an array of numbers; a valid one has exactly five values in 1..6.\<close>

definition valid_hand :: "int list \<Rightarrow> bool" where
  "valid_hand dice = (length dice = 5 \<and> list_all (\<lambda>d. 1 \<le> d \<and> d \<le> 6) dice)"

text \<open>
  The subclasses of \<open>Rule\<close>. The constructor copies the parameter object onto the
  instance, so each kind carries the one field its \<open>evalRoll\<close> reads:
  \<open>val\<close>, \<open>count\<close> or \<open>score\<close>.
\<close>

datatype rule =
    TotalOneNumber int
  | SumDistro int
  | FullHouse int
  | SmallStraight int
  | LargeStraight int
  | Yahtzee int

subsection \<open>The helpers of class Rule\<close>

text \<open>\<open>sum(dice)\<close>: \<open>dice.reduce((prev, curr) => prev + curr)\<close>, no initial value.\<close>

fun sum_dice :: "int list \<Rightarrow> error + int" where
  "sum_dice [] = Inl TypeError"
| "sum_dice (d # ds) = Inr (foldl (\<lambda>prev curr. prev + curr) d ds)"

text \<open>
  A JavaScript \<open>Map\<close> keeps its keys in insertion order: \<open>set\<close> on a key that is present
  replaces the value in place, on a new key it appends the entry.
\<close>

fun map_set :: "('k \<times> 'v) list \<Rightarrow> 'k \<Rightarrow> 'v \<Rightarrow> ('k \<times> 'v) list" where
  "map_set [] k v = [(k, v)]"
| "map_set ((k', v') # m) k v =
     (if k' = k then (k', v) # m else (k', v') # map_set m k v)"

text \<open>\<open>freqs.set(d, (freqs.get(d) || 0) + 1)\<close>: a missing key reads as 0.\<close>

definition freq_step :: "(int \<times> nat) list \<Rightarrow> int \<Rightarrow> (int \<times> nat) list" where
  "freq_step freqs d =
     map_set freqs d ((case map_of freqs d of None \<Rightarrow> 0 | Some c \<Rightarrow> c) + 1)"

text \<open>\<open>freq(dice)\<close>: the loop over the dice, then \<open>Array.from(freqs.values())\<close>.\<close>

definition freq :: "int list \<Rightarrow> nat list" where
  "freq dice = map snd (foldl freq_step [] dice)"

text \<open>\<open>count(dice, val)\<close>: \<open>dice.filter((d) => d === val).length\<close>.\<close>

definition count_dice :: "int list \<Rightarrow> int \<Rightarrow> nat" where
  "count_dice dice val = length (filter (\<lambda>d. d = val) dice)"

subsection \<open>Library behaviour the rules rely on\<close>

text \<open>
  \<open>new Set(dice)\<close>: the distinct values in insertion order; \<open>has\<close> is membership and
  \<open>size\<close> the number of entries.
\<close>

definition set_add :: "int list \<Rightarrow> int \<Rightarrow> int list" where
  "set_add s d = (if d \<in> set s then s else s @ [d])"

definition new_Set :: "int list \<Rightarrow> int list" where
  "new_Set dice = foldl set_add [] dice"

definition has :: "int list \<Rightarrow> int \<Rightarrow> bool" where
  "has s v = (v \<in> set s)"

definition size_Set :: "int list \<Rightarrow> nat" where
  "size_Set s = length s"

text \<open>\<open>arr[i]\<close> is \<open>undefined\<close> (here \<open>None\<close>) past the end of the array.\<close>

definition at_index :: "'a list \<Rightarrow> nat \<Rightarrow> 'a option" where
  "at_index xs i = (if i < length xs then Some (xs ! i) else None)"

text \<open>
  \<open>Array.prototype.sort()\<close> without a comparator orders the elements by their string
  forms, code unit by code unit, a proper prefix first. The string of a count is its
  decimal digits, and digit characters are ordered as the digits are; the sort is stable.
\<close>

fun digits :: "nat \<Rightarrow> nat list" where
  "digits n = (if n < 10 then [n] else digits (n div 10) @ [n mod 10])"

declare digits.simps [simp del]

fun str_less :: "nat list \<Rightarrow> nat list \<Rightarrow> bool" where
  "str_less [] [] = False"
| "str_less [] (y # ys) = True"
| "str_less (x # xs) [] = False"
| "str_less (x # xs) (y # ys) = (x < y \<or> (x = y \<and> str_less xs ys))"

fun sort_insert :: "nat \<Rightarrow> nat list \<Rightarrow> nat list" where
  "sort_insert x [] = [x]"
| "sort_insert x (y # ys) =
     (if str_less (digits x) (digits y) then x # y # ys else y # sort_insert x ys)"

definition js_sort :: "nat list \<Rightarrow> nat list" where
  "js_sort xs = foldr sort_insert xs []"

subsection \<open>evalRoll of the six rule kinds\<close>

fun evalRoll :: "rule \<Rightarrow> int list \<Rightarrow> error + int" where
  "evalRoll (TotalOneNumber val) dice = Inr (val * int (count_dice dice val))"
| "evalRoll (SumDistro cnt) dice =
     (if list_ex (\<lambda>c. int c \<ge> cnt) (freq dice) then sum_dice dice else Inr 0)"
| "evalRoll (FullHouse score) dice =
     (let frqArr = js_sort (freq dice)
      in Inr (if at_index frqArr 0 = Some 2 \<and> at_index frqArr 1 = Some 3 then score else 0))"
| "evalRoll (SmallStraight score) dice =
     (let d = new_Set dice
      in if has d 2 \<and> has d 3 \<and> has d 4 \<and> (\<not> has d 1 \<or> \<not> has d 5) then Inr score
         else if has d 3 \<and> has d 4 \<and> has d 5 \<and> (\<not> has d 2 \<or> \<not> has d 6) then Inr score
         else Inr 0)"
| "evalRoll (LargeStraight score) dice =
     (let d = new_Set dice
      in Inr (if size_Set d = 5 \<and> (\<not> has d 1 \<or> \<not> has d 6) then score else 0))"
| "evalRoll (Yahtzee score) dice =
     Inr (if at_index (freq dice) 0 = Some 5 then score else 0)"

subsection \<open>The thirteen rule instances and the module's exports\<close>

definition ones :: rule where "ones = TotalOneNumber 1"
definition twos :: rule where "twos = TotalOneNumber 2"
definition threes :: rule where "threes = TotalOneNumber 3"
definition fours :: rule where "fours = TotalOneNumber 4"
definition fives :: rule where "fives = TotalOneNumber 5"
definition sixes :: rule where "sixes = TotalOneNumber 6"
definition threeOfKind :: rule where "threeOfKind = SumDistro 3"
definition fourOfKind :: rule where "fourOfKind = SumDistro 4"
definition fullHouse :: rule where "fullHouse = FullHouse 25"
definition smallStraight :: rule where "smallStraight = SmallStraight 30"
definition largeStraight :: rule where "largeStraight = LargeStraight 40"
definition yahtzee :: rule where "yahtzee = Yahtzee 50"
definition chance :: rule where "chance = SumDistro 0"

text \<open>The \<open>export { ... }\<close> list: each exported name with the instance it is bound to.\<close>

definition exports :: "(string \<times> rule) list" where
  "exports =
     [(''ones'', ones), (''twos'', twos), (''threes'', threes), (''fours'', fours),
      (''fives'', fives), (''sixes'', sixes), (''threeOfKind'', threeOfKind),
      (''fourOfKind'', fourOfKind), (''fullHouse'', fullHouse),
      (''smallStraight'', smallStraight), (''largeStraight'', largeStraight),
      (''yahtzee'', yahtzee), (''chance'', chance)]"

definition all_rules :: "rule list" where
  "all_rules = map snd exports"

text \<open>The upper-section instances with the face value each is configured with.\<close>

definition upper_section :: "(rule \<times> int) list" where
  "upper_section =
     [(ones, 1), (twos, 2), (threes, 3), (fours, 4), (fives, 5), (sixes, 6)]"

section \<open>Notions the properties are stated with\<close>

text \<open>
  The multiset of value frequencies of a hand: how often each distinct value occurs.
  It is defined from the hand alone, not through \<open>freq\<close>.
\<close>

definition value_freqs :: "int list \<Rightarrow> nat multiset" where
  "value_freqs hand = mset (map (count_list hand) (remdups hand))"

text \<open>Four consecutive values among the values of the hand: 1..4, 2..5 or 3..6.\<close>

definition four_run :: "int list \<Rightarrow> bool" where
  "four_run hand =
     ({1, 2, 3, 4} \<subseteq> set hand \<or> {2, 3, 4, 5} \<subseteq> set hand \<or> {3, 4, 5, 6} \<subseteq> set hand)"

text \<open>
  Modelled from the spec: the lookup operation \<open>score(categoryName, hand)\<close> and its
  \<open>UnknownCategoryError\<close>. The source binds the thirteen instances to their exported names
  (\<open>exports\<close> above) and has no function that looks a rule up by name. Following the
  specification, \<open>score\<close> looks the name up in the registry and evaluates the rule found
  on the hand; a name that is not registered is an \<open>UnknownCategoryError\<close>.
\<close>

definition score :: "string \<Rightarrow> int list \<Rightarrow> error + int" where
  "score categoryName hand =
     (case map_of exports categoryName of
        None \<Rightarrow> Inl UnknownCategoryError
      | Some r \<Rightarrow> evalRoll r hand)"

section \<open>Facts about the helpers\<close>

lemmas rule_defs =
  ones_def twos_def threes_def fours_def fives_def sixes_def threeOfKind_def
  fourOfKind_def fullHouse_def smallStraight_def largeStraight_def yahtzee_def chance_def

lemma count_dice_count_list: "count_dice dice v = count_list dice v"
  by (induction dice) (auto simp: count_dice_def)

lemma map_set_present:
  "x \<in> set ks \<Longrightarrow> distinct ks \<Longrightarrow>
   map_set (map (\<lambda>k. (k, f k)) ks) x v = map (\<lambda>k. (k, if k = x then v else f k)) ks"
  by (induction ks) auto

lemma map_set_absent:
  "x \<notin> set ks \<Longrightarrow> map_set (map (\<lambda>k. (k, f k)) ks) x v = map (\<lambda>k. (k, f k)) ks @ [(x, v)]"
  by (induction ks) auto

lemma map_of_keys:
  "map_of (map (\<lambda>k. (k, f k)) ks) x = (if x \<in> set ks then Some (f x) else None)"
  by (induction ks) auto

lemma set_foldl_set_add: "set (foldl set_add s xs) = set s \<union> set xs"
  by (induction xs arbitrary: s) (auto simp: set_add_def)

lemma distinct_foldl_set_add: "distinct s \<Longrightarrow> distinct (foldl set_add s xs)"
  by (induction xs arbitrary: s) (auto simp: set_add_def)

lemma set_new_Set: "set (new_Set dice) = set dice"
  by (simp add: new_Set_def set_foldl_set_add)

lemma distinct_new_Set: "distinct (new_Set dice)"
  by (simp add: new_Set_def distinct_foldl_set_add)

lemma foldl_set_add_prefix: "\<exists>t. foldl set_add s xs = s @ t"
proof (induction xs arbitrary: s)
  case Nil
  show ?case by simp
next
  case (Cons a xs)
  obtain t where t: "foldl set_add (set_add s a) xs = set_add s a @ t"
    using Cons [of "set_add s a"] by blast
  obtain u where u: "set_add s a = s @ u"
    by (cases "a \<in> set s") (simp_all add: set_add_def)
  show ?case using t u by simp
qed

lemma new_Set_Cons: "\<exists>t. new_Set (x # xs) = x # t"
  using foldl_set_add_prefix [of "[x]" xs] by (simp add: new_Set_def set_add_def)

lemma new_Set_snoc: "new_Set (xs @ [x]) = set_add (new_Set xs) x"
  by (simp add: new_Set_def)

lemma freq_step_keys:
  assumes "distinct ks"
  shows "freq_step (map (\<lambda>k. (k, c k)) ks) x =
         map (\<lambda>k. (k, if k = x then c k + 1 else c k)) ks @
         (if x \<in> set ks then [] else [(x, 1)])"
  using assms by (auto simp: freq_step_def map_of_keys map_set_present map_set_absent)

lemma freq_fold:
  "foldl freq_step [] dice = map (\<lambda>k. (k, count_list dice k)) (new_Set dice)"
proof (induction dice rule: rev_induct)
  case Nil
  show ?case by (simp add: new_Set_def)
next
  case (snoc x xs)
  have "foldl freq_step [] (xs @ [x]) =
        freq_step (map (\<lambda>k. (k, count_list xs k)) (new_Set xs)) x"
    using snoc by simp
  also have "\<dots> = map (\<lambda>k. (k, if k = x then count_list xs k + 1 else count_list xs k)) (new_Set xs) @
        (if x \<in> set xs then [] else [(x, 1)])"
    by (simp add: freq_step_keys distinct_new_Set set_new_Set)
  also have "\<dots> = map (\<lambda>k. (k, count_list (xs @ [x]) k)) (new_Set (xs @ [x]))"
    by (auto simp: new_Set_snoc set_add_def set_new_Set)
  finally show ?case .
qed

lemma freq_eq: "freq dice = map (count_list dice) (new_Set dice)"
  by (simp add: freq_def freq_fold comp_def)

lemma foldl_plus: "foldl (\<lambda>prev curr. prev + curr) (a::int) xs = a + sum_list xs"
  by (induction xs arbitrary: a) auto

lemma sum_dice_eq: "dice \<noteq> [] \<Longrightarrow> sum_dice dice = Inr (sum_list dice)"
  by (cases dice) (auto simp: foldl_plus)

lemma mset_sort_insert: "mset (sort_insert x ys) = add_mset x (mset ys)"
  by (induction ys) auto

lemma mset_js_sort: "mset (js_sort xs) = mset xs"
  by (induction xs) (auto simp: js_sort_def mset_sort_insert)

lemma sum_list_freq: "sum_list (freq dice) = length dice"
proof -
  have "sum_list (freq dice) = sum (count_list dice) (set (new_Set dice))"
    by (simp add: freq_eq sum_list_distinct_conv_sum_set distinct_new_Set)
  also have "\<dots> = length dice"
    by (simp add: set_new_Set sum_count_set)
  finally show ?thesis .
qed

lemma count_list_all: "count_list xs x = length xs \<longleftrightarrow> (\<forall>y\<in>set xs. y = x)"
proof (induction xs)
  case Nil
  show ?case by simp
next
  case (Cons a xs)
  have "count_list xs x \<le> length xs" by (rule count_le_length)
  with Cons show ?case by auto
qed

lemma mset_pair: "mset xs = {#a, b#} \<Longrightarrow> xs = [a, b] \<or> xs = [b, a]"
proof -
  assume h: "mset xs = {#a, b#}"
  then have "length xs = 2" by (metis size_mset size_add_mset size_empty numeral_2_eq_2)
  then obtain x y where xs: "xs = [x, y]"
    by (cases xs; cases "tl xs") auto
  with h show ?thesis by (auto simp: add_eq_conv_ex)
qed

lemma valid_hand_nonempty: "valid_hand dice \<Longrightarrow> dice \<noteq> []"
  by (auto simp: valid_hand_def)

lemma has_new_Set: "has (new_Set dice) v = (v \<in> set dice)"
  by (simp add: has_def set_new_Set)

lemma size_new_Set: "size_Set (new_Set dice) = card (set dice)"
  using distinct_card [OF distinct_new_Set, of dice] by (simp add: size_Set_def set_new_Set)

lemma set_freq: "set (freq dice) = count_list dice ` set dice"
  by (simp add: freq_eq set_new_Set)

lemma freq_threshold:
  assumes "0 < n"
  shows "list_ex (\<lambda>c. int c \<ge> n) (freq dice) = (\<exists>v. int (count_list dice v) \<ge> n)"
proof -
  have "(\<exists>v. int (count_list dice v) \<ge> n) = (\<exists>v\<in>set dice. int (count_list dice v) \<ge> n)"
  proof
    assume "\<exists>v. int (count_list dice v) \<ge> n"
    then obtain v where v: "int (count_list dice v) \<ge> n" ..
    with assms have "count_list dice v \<noteq> 0" by auto
    then have "v \<in> set dice" by (simp add: count_list_0_iff)
    with v show "\<exists>v\<in>set dice. int (count_list dice v) \<ge> n" ..
  qed blast
  then show ?thesis by (simp add: list_ex_iff set_freq)
qed

lemma freq_head:
  assumes "dice \<noteq> []"
  shows "at_index (freq dice) 0 = Some (count_list dice (hd dice))"
proof -
  obtain x xs where d: "dice = x # xs" using assms by (cases dice) auto
  obtain t where "new_Set (x # xs) = x # t" using new_Set_Cons by blast
  then show ?thesis by (simp add: freq_eq d at_index_def)
qed

lemma freq_positive:
  assumes "c \<in> set (freq dice)"
  shows "0 < c"
proof -
  obtain v where "v \<in> set dice" and "c = count_list dice v"
    using assms by (auto simp: set_freq)
  then show ?thesis using count_list_0_iff [of dice v] by simp
qed

lemma freq_nonempty: "dice \<noteq> [] \<Longrightarrow> freq dice \<noteq> []"
  using set_new_Set [of dice] by (auto simp: freq_eq)

lemma if_chain:
  "(if A then Inr s else if B then Inr s else Inr (0::int)) = (Inr (if A \<or> B then s else 0) :: error + int)"
  by simp

lemma smallStraight_code:
  "evalRoll (SmallStraight s) dice =
     Inr (if (2 \<in> set dice \<and> 3 \<in> set dice \<and> 4 \<in> set dice \<and> (1 \<notin> set dice \<or> 5 \<notin> set dice))
           \<or> (3 \<in> set dice \<and> 4 \<in> set dice \<and> 5 \<in> set dice \<and> (2 \<notin> set dice \<or> 6 \<notin> set dice))
          then s else 0)"
  by (simp only: evalRoll.simps Let_def has_new_Set if_chain)

lemma mset_freq: "mset (freq dice) = value_freqs dice"
proof -
  have "mset (new_Set dice) = mset (remdups dice)"
    using set_eq_iff_mset_eq_distinct [of "new_Set dice" "remdups dice"]
    by (simp add: distinct_new_Set set_new_Set)
  then have "image_mset (count_list dice) (mset (new_Set dice)) =
             image_mset (count_list dice) (mset (remdups dice))"
    by simp
  then show ?thesis by (simp add: freq_eq value_freqs_def)
qed

lemma js_sort_pair: "js_sort [2, 3] = [2, 3]" "js_sort [3, 2] = [2, 3]"
  by (simp_all add: js_sort_def digits.simps)

lemma at_index_two:
  "(at_index s 0 = Some a \<and> at_index s 1 = Some b) = (\<exists>rest. s = a # b # rest)"
  by (cases s; cases "tl s") (auto simp: at_index_def)

lemma full_house_test:
  assumes "length dice = 5"
  shows "(at_index (js_sort (freq dice)) 0 = Some 2 \<and> at_index (js_sort (freq dice)) 1 = Some 3)
         = (value_freqs dice = {#2, 3#})"
proof
  assume "at_index (js_sort (freq dice)) 0 = Some 2 \<and> at_index (js_sort (freq dice)) 1 = Some 3"
  then obtain rest where s: "js_sort (freq dice) = 2 # 3 # rest"
    using at_index_two [of "js_sort (freq dice)" 2 3] by blast
  have "sum_list (js_sort (freq dice)) = sum_list (freq dice)"
    using mset_js_sort [of "freq dice"] by (metis sum_mset_sum_list)
  then have "sum_list rest = 0"
    using s assms by (simp add: sum_list_freq)
  moreover have "\<forall>c\<in>set rest. 0 < c"
  proof
    fix c assume "c \<in> set rest"
    then have "c \<in> set (js_sort (freq dice))" by (simp add: s)
    then have "c \<in> set (freq dice)"
      using mset_js_sort [of "freq dice"] by (metis set_mset_mset)
    then show "0 < c" by (rule freq_positive)
  qed
  ultimately have "rest = []" by (cases rest) auto
  then have "mset (js_sort (freq dice)) = {#2, 3#}" by (simp add: s)
  then show "value_freqs dice = {#2, 3#}" by (simp add: mset_js_sort mset_freq)
next
  assume "value_freqs dice = {#2, 3#}"
  then have "mset (freq dice) = {#2, 3#}" by (simp add: mset_freq)
  then have "freq dice = [2, 3] \<or> freq dice = [3, 2]" by (rule mset_pair)
  then have "js_sort (freq dice) = [2, 3]" by (auto simp: js_sort_pair)
  then show "at_index (js_sort (freq dice)) 0 = Some 2 \<and> at_index (js_sort (freq dice)) 1 = Some 3"
    by (simp add: at_index_def)
qed

lemma value_freqs_full_house:
  assumes "length hand = 5"
  shows "(value_freqs hand = {#2, 3#}) =
         (\<exists>a b. count_list hand a = 2 \<and> count_list hand b = 3)"
proof
  assume "value_freqs hand = {#2, 3#}"
  then have "set_mset (mset (freq hand)) = {2, 3}" by (simp add: mset_freq)
  then have "2 \<in> count_list hand ` set hand" "3 \<in> count_list hand ` set hand"
    by (simp_all add: set_freq)
  then show "\<exists>a b. count_list hand a = 2 \<and> count_list hand b = 3" by (metis imageE)
next
  assume "\<exists>a b. count_list hand a = 2 \<and> count_list hand b = 3"
  then obtain a b where a: "count_list hand a = 2" and b: "count_list hand b = 3" by blast
  have ab: "a \<noteq> b" using a b by auto
  have ain: "a \<in> set hand" using a count_list_0_iff [of hand a] by auto
  have bin: "b \<in> set hand" using b count_list_0_iff [of hand b] by auto
  have "sum (count_list hand) (set hand) = 5"
    using sum_count_set [of hand "set hand"] assms by simp
  moreover have "sum (count_list hand) (set hand) =
        count_list hand a + (count_list hand b + sum (count_list hand) (set hand - {a} - {b}))"
    using ain bin ab by (simp add: sum.remove [of _ a] sum.remove [of _ b])
  ultimately have z: "sum (count_list hand) (set hand - {a} - {b}) = 0"
    using a b by simp
  have "set hand - {a} - {b} = {}"
  proof (rule ccontr)
    assume "set hand - {a} - {b} \<noteq> {}"
    then obtain c where c: "c \<in> set hand - {a} - {b}" by blast
    then have "count_list hand c = 0" using z by simp
    then show False using c count_list_0_iff [of hand c] by simp
  qed
  then have sh: "set hand = {a, b}" using ain bin by blast
  have "mset (remdups hand) = mset [a, b]"
    using set_eq_iff_mset_eq_distinct [of "remdups hand" "[a, b]"] ab sh by simp
  then have "image_mset (count_list hand) (mset (remdups hand)) = {#2, 3#}"
    using a b by simp
  then show "value_freqs hand = {#2, 3#}" by (simp add: value_freqs_def)
qed

lemma yahtzee_test:
  assumes "length dice = 5"
  shows "(at_index (freq dice) 0 = Some 5) = (\<exists>v. dice = replicate 5 v)"
proof -
  have ne: "dice \<noteq> []" using assms by auto
  have "(count_list dice (hd dice) = 5) = (\<forall>d\<in>set dice. d = hd dice)"
    using count_list_all [of dice "hd dice"] assms by simp
  also have "\<dots> = (\<exists>v. dice = replicate 5 v)"
  proof
    assume "\<forall>d\<in>set dice. d = hd dice"
    then have "replicate (length dice) (hd dice) = dice" by (rule replicate_length_same)
    then show "\<exists>v. dice = replicate 5 v" using assms by metis
  next
    assume "\<exists>v. dice = replicate 5 v"
    then obtain v where v: "dice = replicate 5 v" ..
    then have "hd dice = v" by simp
    then show "\<forall>d\<in>set dice. d = hd dice" using v by auto
  qed
  finally show ?thesis by (simp add: freq_head [OF ne])
qed

lemma all_same_value_freqs:
  assumes "length dice = 5"
  shows "(\<exists>v. dice = replicate 5 v) = (value_freqs dice = {#5#})"
proof
  assume "\<exists>v. dice = replicate 5 v"
  then obtain v where v: "dice = replicate 5 v" ..
  have "replicate 5 v = [v, v, v, v, v]" by (simp add: numeral_eq_Suc)
  then have "dice = [v, v, v, v, v]" using v by simp
  then show "value_freqs dice = {#5#}"
    by (simp add: value_freqs_def)
next
  assume "value_freqs dice = {#5#}"
  then have "mset (freq dice) = mset [5]" by (simp add: mset_freq)
  then have "freq dice = [5]" by (metis mset_single_iff_right mset.simps mset_zero_iff)
  then have "at_index (freq dice) 0 = Some 5" by (simp add: at_index_def)
  then show "\<exists>v. dice = replicate 5 v" by (simp add: yahtzee_test [OF assms])
qed

lemma sum_list_valid_nonneg:
  assumes "valid_hand hand"
  shows "0 \<le> sum_list hand"
proof -
  have "\<forall>d\<in>set hand. 0 \<le> d" using assms by (auto simp: valid_hand_def list_all_iff)
  then show ?thesis by (simp add: sum_list_nonneg)
qed

lemma freq_Nil: "freq [] = []"
  by (simp add: freq_def)

lemma evalRoll_returns: "\<exists>n. evalRoll r hand = Inr n"
proof (cases r)
  case (SumDistro cnt)
  show ?thesis
  proof (cases "hand = []")
    case True
    then show ?thesis by (simp add: SumDistro freq_Nil)
  next
    case False
    then show ?thesis by (simp add: SumDistro sum_dice_eq)
  qed
next
  case (SmallStraight s)
  then show ?thesis by (simp only: smallStraight_code) blast
qed (simp_all add: Let_def)

lemma evalRoll_nonneg:
  assumes "valid_hand hand" and "r \<in> set all_rules"
  shows "\<exists>n. evalRoll r hand = Inr n \<and> 0 \<le> n"
proof -
  have ne: "hand \<noteq> []" using assms(1) by (rule valid_hand_nonempty)
  have s: "0 \<le> sum_list hand" using assms(1) by (rule sum_list_valid_nonneg)
  consider v where "r = TotalOneNumber v" "0 \<le> v"
    | c where "r = SumDistro c"
    | p where "r = FullHouse p" "0 \<le> p"
    | p where "r = SmallStraight p" "0 \<le> p"
    | p where "r = LargeStraight p" "0 \<le> p"
    | p where "r = Yahtzee p" "0 \<le> p"
    using assms(2) by (auto simp: all_rules_def exports_def rule_defs)
  then show ?thesis
  proof cases
    case 1
    then show ?thesis by simp
  next
    case 2
    then show ?thesis using s by (simp add: sum_dice_eq [OF ne])
  next
    case 3
    then show ?thesis by (simp add: Let_def)
  next
    case 4
    then show ?thesis by (simp only: smallStraight_code) simp
  next
    case 5
    then show ?thesis by (simp add: Let_def)
  next
    case 6
    then show ?thesis by simp
  qed
qed

lemma no_six_values:
  assumes "length (hand :: int list) = 5"
  shows "\<not> {1, 2, 3, 4, 5, 6} \<subseteq> set hand"
proof
  assume "{1, 2, 3, 4, 5, 6} \<subseteq> set hand"
  then have "card {1, 2, 3, 4, 5, 6 :: int} \<le> card (set hand)"
    by (rule card_mono [OF finite_set])
  moreover have "card {1, 2, 3, 4, 5, 6 :: int} = 6" by simp
  moreover have "card (set hand) \<le> 5" using card_length [of hand] assms by simp
  ultimately show False by simp
qed

lemma smallStraight_run_scores:
  assumes "valid_hand hand" and "four_run hand"
  shows "evalRoll smallStraight hand = Inr 30"
proof -
  have "length hand = 5" using assms(1) by (simp add: valid_hand_def)
  then have "\<not> {1, 2, 3, 4, 5, 6} \<subseteq> set hand" by (rule no_six_values)
  then have "(2 \<in> set hand \<and> 3 \<in> set hand \<and> 4 \<in> set hand \<and> (1 \<notin> set hand \<or> 5 \<notin> set hand))
           \<or> (3 \<in> set hand \<and> 4 \<in> set hand \<and> 5 \<in> set hand \<and> (2 \<notin> set hand \<or> 6 \<notin> set hand))"
    using assms(2) unfolding four_run_def by blast
  then show ?thesis by (simp only: smallStraight_def smallStraight_code if_True)
qed

section \<open>The properties of the scoring rules\<close>

text \<open>
  C1 (as amended). The rules do not validate the hand. For every hand that is not exactly
  five values in 1..6 (any length, also none, and any integer values), each of the thirteen
  rules returns a numeric score and raises nothing: no \<open>InvalidHandError\<close> and no other
  error.
\<close>

theorem malformed_hand_scored:
  assumes "\<not> valid_hand hand" and "r \<in> set all_rules"
  shows "\<exists>n. evalRoll r hand = Inr n"
  by (rule evalRoll_returns)

theorem malformed_hand_scored_witness:
  "\<not> valid_hand [7, 1, 1, 1, 1] \<and> chance \<in> set all_rules \<and>
   (\<exists>n. evalRoll chance [7, 1, 1, 1, 1] = Inr n)"
proof -
  have v: "\<not> valid_hand [7, 1, 1, 1, 1]" by (simp add: valid_hand_def)
  have m: "chance \<in> set all_rules" by (simp add: all_rules_def exports_def)
  show ?thesis using malformed_hand_scored [OF v m] v m by simp
qed

text \<open>
  C1 as stated fails: a hand of length 4 is scored by \<open>ones\<close> as 4, and a hand of five
  sevens is scored by \<open>chance\<close> as 35; neither raises \<open>InvalidHandError\<close>.
\<close>

theorem malformed_hand_counterexample:
  "\<not> valid_hand [1, 1, 1, 1] \<and> evalRoll ones [1, 1, 1, 1] = Inr 4 \<and>
   evalRoll ones [1, 1, 1, 1] \<noteq> Inl InvalidHandError \<and>
   \<not> valid_hand [7, 7, 7, 7, 7] \<and> evalRoll chance [7, 7, 7, 7, 7] = Inr 35 \<and>
   evalRoll chance [7, 7, 7, 7, 7] \<noteq> Inl InvalidHandError"
proof -
  have a: "\<not> valid_hand [1, 1, 1, 1]" by (simp add: valid_hand_def)
  have b: "evalRoll ones [1, 1, 1, 1] = Inr 4" by code_simp
  have c: "\<not> valid_hand [7, 7, 7, 7, 7]" by (simp add: valid_hand_def)
  have d: "evalRoll chance [7, 7, 7, 7, 7] = Inr 35" by code_simp
  show ?thesis using a b c d by simp
qed

text \<open>
  C2. For every category name that is not one of the thirteen registered names, \<open>score\<close>
  is an \<open>UnknownCategoryError\<close>: no rule is evaluated and no default category is used.
\<close>

theorem score_unknown_category:
  assumes "categoryName \<notin> set [''ones'', ''twos'', ''threes'', ''fours'', ''fives'', ''sixes'',
             ''threeOfKind'', ''fourOfKind'', ''fullHouse'', ''smallStraight'',
             ''largeStraight'', ''yahtzee'', ''chance'']"
  shows "score categoryName hand = Inl UnknownCategoryError"
proof -
  have "map_of exports categoryName = None"
    using assms by (simp add: exports_def)
  then show ?thesis by (simp add: score_def)
qed

theorem score_unknown_category_witness:
  "''bonus'' \<notin> set [''ones'', ''twos'', ''threes'', ''fours'', ''fives'', ''sixes'',
             ''threeOfKind'', ''fourOfKind'', ''fullHouse'', ''smallStraight'',
             ''largeStraight'', ''yahtzee'', ''chance''] \<and>
   score ''bonus'' [1, 2, 3, 4, 5] = Inl UnknownCategoryError"
  using score_unknown_category [of "''bonus''" "[1, 2, 3, 4, 5]"] by simp

text \<open>
  C3. The claim is that \<open>smallStraight\<close> pays 30 exactly for the hands whose values
  include four consecutive values. The hand 2, 3, 4, 4, 4 is valid and has no four
  consecutive values, and \<open>smallStraight\<close> pays 30 for it.
\<close>

theorem smallStraight_pays_without_run:
  "valid_hand [2, 3, 4, 4, 4] \<and> \<not> four_run [2, 3, 4, 4, 4] \<and>
   evalRoll smallStraight [2, 3, 4, 4, 4] = Inr 30"
proof -
  have a: "valid_hand [2, 3, 4, 4, 4]" by (simp add: valid_hand_def)
  have b: "\<not> four_run [2, 3, 4, 4, 4]" by (simp add: four_run_def)
  have c: "evalRoll smallStraight [2, 3, 4, 4, 4] = Inr 30" by code_simp
  show ?thesis using a b c by simp
qed

text \<open>
  C4. For every valid hand, \<open>smallStraight\<close> returns 30 exactly when the set of values
  contains 2, 3 and 4 and not both 1 and 5, or contains 3, 4 and 5 and not both 2 and 6;
  otherwise it returns 0.
\<close>

theorem smallStraight_score:
  assumes "valid_hand hand"
  shows "evalRoll smallStraight hand =
           Inr (if ({2, 3, 4} \<subseteq> set hand \<and> \<not> (1 \<in> set hand \<and> 5 \<in> set hand))
                   \<or> ({3, 4, 5} \<subseteq> set hand \<and> \<not> (2 \<in> set hand \<and> 6 \<in> set hand))
                then 30 else 0)"
proof -
  have E: "(({2, 3, 4} \<subseteq> set hand \<and> \<not> (1 \<in> set hand \<and> 5 \<in> set hand))
          \<or> ({3, 4, 5} \<subseteq> set hand \<and> \<not> (2 \<in> set hand \<and> 6 \<in> set hand))) =
        ((2 \<in> set hand \<and> 3 \<in> set hand \<and> 4 \<in> set hand \<and> (1 \<notin> set hand \<or> 5 \<notin> set hand))
           \<or> (3 \<in> set hand \<and> 4 \<in> set hand \<and> 5 \<in> set hand \<and> (2 \<notin> set hand \<or> 6 \<notin> set hand)))"
    by blast
  show ?thesis
    by (simp only: smallStraight_def smallStraight_code E)
qed

theorem smallStraight_score_witness:
  "valid_hand [1, 2, 3, 4, 6] \<and> evalRoll smallStraight [1, 2, 3, 4, 6] = Inr 30"
  using smallStraight_score [of "[1, 2, 3, 4, 6]"] by (simp add: valid_hand_def)

text \<open>
  C5. For every valid hand and every upper-section category \<open>ones\<close> .. \<open>sixes\<close> with its
  face value \<open>v\<close>, the score is \<open>v\<close> times the number of dice of the hand equal to \<open>v\<close>.
\<close>

theorem upper_section_score:
  assumes "valid_hand hand" and "(r, v) \<in> set upper_section"
  shows "evalRoll r hand = Inr (v * int (count_list hand v))"
  using assms(2) by (auto simp: upper_section_def rule_defs count_dice_count_list)

theorem upper_section_score_witness:
  "valid_hand [3, 1, 3, 6, 3] \<and> (threes, 3) \<in> set upper_section \<and>
   evalRoll threes [3, 1, 3, 6, 3] = Inr 9"
  using upper_section_score [of "[3, 1, 3, 6, 3]" threes 3]
  by (simp add: valid_hand_def upper_section_def)

text \<open>
  C6. For every valid hand, \<open>threeOfKind\<close> returns the sum of the dice if some value occurs
  at least 3 times and 0 otherwise, \<open>fourOfKind\<close> the sum of the dice if some value occurs
  at least 4 times and 0 otherwise, and \<open>chance\<close> always the sum of the dice.
\<close>

theorem sum_distro_scores:
  assumes "valid_hand hand"
  shows "evalRoll threeOfKind hand =
           Inr (if \<exists>v. 3 \<le> count_list hand v then sum_list hand else 0) \<and>
         evalRoll fourOfKind hand =
           Inr (if \<exists>v. 4 \<le> count_list hand v then sum_list hand else 0) \<and>
         evalRoll chance hand = Inr (sum_list hand)"
proof -
  have ne: "hand \<noteq> []" using assms by (rule valid_hand_nonempty)
  have three: "evalRoll threeOfKind hand =
           Inr (if \<exists>v. 3 \<le> count_list hand v then sum_list hand else 0)"
    using freq_threshold [of 3 hand] by (simp add: threeOfKind_def sum_dice_eq [OF ne])
  have four: "evalRoll fourOfKind hand =
           Inr (if \<exists>v. 4 \<le> count_list hand v then sum_list hand else 0)"
    using freq_threshold [of 4 hand] by (simp add: fourOfKind_def sum_dice_eq [OF ne])
  obtain c where "c \<in> set (freq hand)" using freq_nonempty [OF ne] by (cases "freq hand") auto
  then have "list_ex (\<lambda>c. int c \<ge> 0) (freq hand)" by (auto simp: list_ex_iff)
  then have "evalRoll chance hand = Inr (sum_list hand)"
    by (simp add: chance_def sum_dice_eq [OF ne])
  with three four show ?thesis by (intro conjI)
qed

theorem sum_distro_scores_witness:
  "valid_hand [5, 5, 5, 2, 1] \<and> evalRoll threeOfKind [5, 5, 5, 2, 1] = Inr 18 \<and>
   evalRoll fourOfKind [5, 5, 5, 2, 1] = Inr 0 \<and> evalRoll chance [5, 5, 5, 2, 1] = Inr 18"
proof -
  have v: "valid_hand [5, 5, 5, 2, 1]" by (simp add: valid_hand_def)
  have a: "\<exists>v. 3 \<le> count_list [5, 5, 5, 2, 1 :: int] v"
    by (rule exI [of _ 5]) simp
  have b: "\<not> (\<exists>v. 4 \<le> count_list [5, 5, 5, 2, 1 :: int] v)" by simp
  show ?thesis using sum_distro_scores [OF v] v a b by simp
qed

text \<open>
  C7. For every valid hand, \<open>fullHouse\<close> returns 25 if the multiset of value frequencies
  is exactly {2, 3}, that is, one value occurs exactly twice and another exactly three
  times, and 0 otherwise.
\<close>

theorem fullHouse_score:
  assumes "valid_hand hand"
  shows "evalRoll fullHouse hand = Inr (if value_freqs hand = {#2, 3#} then 25 else 0) \<and>
         (value_freqs hand = {#2, 3#}) =
           (\<exists>a b. count_list hand a = 2 \<and> count_list hand b = 3)"
proof -
  have len: "length hand = 5" using assms by (simp add: valid_hand_def)
  then have "evalRoll fullHouse hand = Inr (if value_freqs hand = {#2, 3#} then 25 else 0)"
    using full_house_test [of hand] by (simp add: fullHouse_def Let_def)
  then show ?thesis using value_freqs_full_house [OF len] by (intro conjI)
qed

theorem fullHouse_score_witness:
  "valid_hand [2, 2, 3, 3, 3] \<and> evalRoll fullHouse [2, 2, 3, 3, 3] = Inr 25"
proof -
  have v: "valid_hand [2, 2, 3, 3, 3]" by (simp add: valid_hand_def)
  have f: "value_freqs [2, 2, 3, 3, 3] = {#2, 3#}"
    by (simp add: value_freqs_def numeral_2_eq_2 numeral_3_eq_3)
  show ?thesis using fullHouse_score [OF v] v f by simp
qed

text \<open>
  C8. For every valid hand, \<open>largeStraight\<close> returns 40 if the hand has exactly 5 distinct
  values and not both 1 and 6 are among them, and 0 otherwise; in particular it returns
  40 on 2, 3, 4, 5, 6 and 0 on 1, 2, 3, 4, 6.
\<close>

theorem largeStraight_score:
  assumes "valid_hand hand"
  shows "evalRoll largeStraight hand =
           Inr (if card (set hand) = 5 \<and> \<not> (1 \<in> set hand \<and> 6 \<in> set hand) then 40 else 0) \<and>
         evalRoll largeStraight [2, 3, 4, 5, 6] = Inr 40 \<and>
         evalRoll largeStraight [1, 2, 3, 4, 6] = Inr 0"
proof -
  have a: "evalRoll largeStraight hand =
           Inr (if card (set hand) = 5 \<and> \<not> (1 \<in> set hand \<and> 6 \<in> set hand) then 40 else 0)"
    by (simp add: largeStraight_def Let_def has_new_Set size_new_Set)
  have b: "evalRoll largeStraight [2, 3, 4, 5, 6] = Inr 40" by code_simp
  have c: "evalRoll largeStraight [1, 2, 3, 4, 6] = Inr 0" by code_simp
  from a b c show ?thesis by (intro conjI)
qed

theorem largeStraight_score_witness:
  "valid_hand [1, 2, 3, 4, 5] \<and> evalRoll largeStraight [1, 2, 3, 4, 5] = Inr 40"
  using largeStraight_score [of "[1, 2, 3, 4, 5]"] by (simp add: valid_hand_def)

text \<open>
  C9. For every valid hand, \<open>yahtzee\<close> returns 50 if all five dice are identical, which is
  when the multiset of value frequencies has the single entry 5, and 0 otherwise.
\<close>

theorem yahtzee_score:
  assumes "valid_hand hand"
  shows "evalRoll yahtzee hand = Inr (if \<exists>v. hand = replicate 5 v then 50 else 0) \<and>
         (\<exists>v. hand = replicate 5 v) = (value_freqs hand = {#5#})"
proof -
  have len: "length hand = 5" using assms by (simp add: valid_hand_def)
  have "evalRoll yahtzee hand = Inr (if \<exists>v. hand = replicate 5 v then 50 else 0)"
    by (simp only: yahtzee_def evalRoll.simps yahtzee_test [OF len])
  then show ?thesis using all_same_value_freqs [OF len] by (intro conjI)
qed

theorem yahtzee_score_witness:
  "valid_hand [4, 4, 4, 4, 4] \<and> evalRoll yahtzee [4, 4, 4, 4, 4] = Inr 50"
proof -
  have v: "valid_hand [4, 4, 4, 4, 4]" by (simp add: valid_hand_def)
  have r: "\<exists>v. [4, 4, 4, 4, 4 :: int] = replicate 5 v"
    by (rule exI [of _ 4]) (simp add: numeral_eq_Suc)
  show ?thesis using yahtzee_score [OF v] v r by simp
qed

text \<open>
  C10. For every valid hand and each of the thirteen configured rules, evaluating the rule
  on the hand returns an integer that is at least 0.
\<close>

theorem score_nonneg:
  assumes "valid_hand hand" and "r \<in> set all_rules"
  shows "\<exists>n. evalRoll r hand = Inr n \<and> 0 \<le> n"
  using assms by (rule evalRoll_nonneg)

theorem score_nonneg_witness:
  "valid_hand [6, 6, 2, 1, 6] \<and> threeOfKind \<in> set all_rules \<and>
   (\<exists>n. evalRoll threeOfKind [6, 6, 2, 1, 6] = Inr n \<and> 0 \<le> n)"
proof -
  have v: "valid_hand [6, 6, 2, 1, 6]" by (simp add: valid_hand_def)
  have m: "threeOfKind \<in> set all_rules" by (simp add: all_rules_def exports_def)
  show ?thesis using score_nonneg [OF v m] v m by simp
qed

end
